theory Spec2Isabelle
  imports Complex_Main "HOL-Library.Log_Nat"
begin

section \<open>The production-planning model of main.py\<close>

text \<open>
  main.py builds a Pyomo \<^verbatim>\<open>ConcreteModel\<close>: indexed integer variables, a
  \<^verbatim>\<open>ConstraintList\<close> filled by a loop over the weeks, and a cost objective; it
  hands the model to an external solver and prints what the solver left in the
  variables.  The embedding keeps the model as data: variables are named by a
  datatype, expressions and constraints are syntax trees built in the order of the
  source, and an assignment gives every variable an integer.  What Python computes
  in floats is computed here in IEEE doubles: the safety thresholds \<^verbatim>\<open>0.8*consA[i]\<close>
  when the model is built, and the cost the script prints.  The objective keeps its
  numeric literals as written (\<^verbatim>\<open>0.00375\<close>, \<^verbatim>\<open>0.195\<close>); as the function the solver
  minimises they are read as the decimal fractions they denote.
\<close>

subsection \<open>Data of the script\<close>

definition consA :: "int list" where
  "consA = [0, 55, 55, 44, 0, 45, 45, 36, 35, 35]"

definition consB :: "int list" where
  "consB = [0, 38, 38, 30, 0, 48, 48, 58, 57, 58]"

definition week :: "nat list" where
  "week = [1..<10]"

definition weekZ :: "nat list" where
  "weekZ = [0..<10]"

subsection \<open>Variables, expressions, constraints\<close>

datatype var = prodA nat | prodB nat | deci nat | chan nat | storA nat | storB nat

datatype domain = NonNegativeIntegers | Binary

datatype expr =
    Num rat
  | V var
  | Add expr expr
  | Sub expr expr
  | Mul expr expr
  | Div expr expr

datatype constr = LE expr expr | GE expr expr | EQ expr expr

record model =
  decls :: "(var \<times> domain) list"
  conList :: "constr list"
  totalCost :: "expr option"

type_synonym assignment = "var \<Rightarrow> int"

fun eval :: "assignment \<Rightarrow> expr \<Rightarrow> rat" where
  "eval a (Num q) = q"
| "eval a (V v) = of_int (a v)"
| "eval a (Add e f) = eval a e + eval a f"
| "eval a (Sub e f) = eval a e - eval a f"
| "eval a (Mul e f) = eval a e * eval a f"
| "eval a (Div e f) = eval a e / eval a f"

fun holds :: "assignment \<Rightarrow> constr \<Rightarrow> bool" where
  "holds a (LE e f) = (eval a e \<le> eval a f)"
| "holds a (GE e f) = (eval a e \<ge> eval a f)"
| "holds a (EQ e f) = (eval a e = eval a f)"

fun in_domain :: "domain \<Rightarrow> int \<Rightarrow> bool" where
  "in_domain NonNegativeIntegers x = (0 \<le> x)"
| "in_domain Binary x = (x = 0 \<or> x = 1)"

definition feasible :: "model \<Rightarrow> assignment \<Rightarrow> bool" where
  "feasible m a =
     (list_all (\<lambda>(v, d). in_domain d (a v)) (decls m) \<and> list_all (holds a) (conList m))"

subsection \<open>Building the model\<close>

datatype py_error =
  IndexError | AttributeError | ValueError | TypeError | OverflowError | ZeroDivisionError

subsection \<open>Python floats\<close>

text \<open>
  A Python float is an IEEE 754 double: a rational \<open>n * 2^e\<close> with \<open>\<bar>n\<bar> < 2^53\<close> and
  \<open>- 1074 \<le> e\<close>, of magnitude below \<open>2^1024\<close>.  \<open>rnd\<close> rounds a rational to the nearest
  such number, ties to the even significand, with no upper limit on the magnitude; the
  operations below apply the limit.  The sign of a zero is not modelled.
\<close>

definition pow2 :: "int \<Rightarrow> rat" where
  "pow2 e = (if 0 \<le> e then 2 ^ nat e else 1 / 2 ^ nat (- e))"

text \<open>For positive \<open>x\<close>, the exponent \<open>k\<close> with \<open>2^k \<le> x < 2^(k + 1)\<close>.\<close>

definition ilog2 :: "rat \<Rightarrow> int" where
  "ilog2 x =
     (case quotient_of x of (p, q) \<Rightarrow>
        let l = bitlen p - bitlen q in if pow2 l \<le> x then l else l - 1)"

definition round_half_even :: "rat \<Rightarrow> int" where
  "round_half_even r =
     (let n = \<lfloor>r\<rfloor>; fr = r - of_int n
      in if fr < 1 / 2 then n else if 1 / 2 < fr then n + 1 else if even n then n else n + 1)"

definition rnd :: "rat \<Rightarrow> rat" where
  "rnd x =
     (if x = 0 then 0
      else let q = pow2 (max (ilog2 \<bar>x\<bar> - 52) (- 1074))
           in sgn x * of_int (round_half_even (\<bar>x\<bar> / q)) * q)"

text \<open>
  \<^verbatim>\<open>float(n)\<close> for a Python integer, as the product of a float and an integer takes
  it: the nearest double, or an exception when that is out of range.
\<close>

definition float_of_int :: "int \<Rightarrow> py_error + rat" where
  "float_of_int n =
     (let y = rnd (of_int n) in if pow2 1024 \<le> \<bar>y\<bar> then Inl OverflowError else Inr y)"

text \<open>The product of two doubles, when it is in range (as \<^verbatim>\<open>0.8*x\<close> is for every double \<open>x\<close>).\<close>

definition float_mul :: "rat \<Rightarrow> rat \<Rightarrow> rat" where
  "float_mul x y = rnd (x * y)"

text \<open>\<^verbatim>\<open>xs[i]\<close> for an index that is never negative.\<close>

definition getitem :: "int list \<Rightarrow> nat \<Rightarrow> py_error + int" where
  "getitem xs i = (if i < length xs then Inr (xs ! i) else Inl IndexError)"

text \<open>\<^verbatim>\<open>mdl.x = Var(index, domain=d)\<close> declares one variable per index.\<close>

definition Var :: "(nat \<Rightarrow> var) \<Rightarrow> nat list \<Rightarrow> domain \<Rightarrow> model \<Rightarrow> model" where
  "Var x index d m = m\<lparr>decls := decls m @ map (\<lambda>i. (x i, d)) index\<rparr>"

text \<open>\<^verbatim>\<open>mdl.conList.add(expr = c)\<close> appends to the constraint list.\<close>

definition add :: "constr \<Rightarrow> model \<Rightarrow> model" where
  "add c m = m\<lparr>conList := conList m @ [c]\<rparr>"

text \<open>Python's \<^verbatim>\<open>sum\<close> over a generator starts from 0 and adds from the left.\<close>

definition py_sum :: "expr list \<Rightarrow> expr" where
  "py_sum es = foldl Add (Num 0) es"

definition ConcreteModel :: model where
  "ConcreteModel = \<lparr>decls = [], conList = [], totalCost = None\<rparr>"

text \<open>
  Lines 18 to 36: the variable declarations and the three initial conditions, in
  source order.
\<close>

definition declare_vars :: "model \<Rightarrow> model" where
  "declare_vars m0 =
     (let m1 = Var prodA week NonNegativeIntegers m0;
          m2 = Var prodB week NonNegativeIntegers m1;
          m3 = Var deci weekZ Binary m2;
          m4 = add (EQ (V (deci 0)) (Num 0)) m3;
          m5 = Var chan week Binary m4;
          m6 = Var storA weekZ NonNegativeIntegers m5;
          m7 = Var storB weekZ NonNegativeIntegers m6;
          m8 = add (EQ (V (storA 0)) (Num 125)) m7;
          m9 = add (EQ (V (storB 0)) (Num 143)) m8
      in m9)"

text \<open>
  Lines 40 to 72: the body of the constraint loop for week \<open>i\<close>.  The products
  \<^verbatim>\<open>0.8*consA[i]\<close> and \<^verbatim>\<open>0.8*consB[i]\<close> are Python floats, computed when the constraint
  is built: the literal \<^verbatim>\<open>0.8\<close> is the double nearest to 8/10, the integer is converted
  to a double, and the product is rounded.  Reading past the end of a demand list
  raises, and so does converting an integer that is too large.
\<close>

definition loop_body :: "int list \<Rightarrow> int list \<Rightarrow> nat \<Rightarrow> model \<Rightarrow> py_error + model" where
  "loop_body cA cB i m0 =
     (let m1 = add (LE (V (prodA i)) (Num 100)) m0;
          m2 = add (LE (V (prodB i)) (Num 80)) m1
      in case getitem cA i of Inl e \<Rightarrow> Inl e | Inr a \<Rightarrow>
         case float_of_int a of Inl e \<Rightarrow> Inl e | Inr fa \<Rightarrow>
        (let m3 = add (GE (V (storA (i - 1))) (Num (float_mul (rnd (8 / 10)) fa))) m2
         in case getitem cB i of Inl e \<Rightarrow> Inl e | Inr b \<Rightarrow>
            case float_of_int b of Inl e \<Rightarrow> Inl e | Inr fb \<Rightarrow>
           (let m4 = add (GE (V (storB (i - 1))) (Num (float_mul (rnd (8 / 10)) fb))) m3;
                m5 = add (EQ (V (storA i))
                             (Sub (Add (V (storA (i - 1))) (V (prodA i))) (Num (of_int a)))) m4;
                m6 = add (EQ (V (storB i))
                             (Sub (Add (V (storB (i - 1))) (V (prodB i))) (Num (of_int b)))) m5;
                m7 = add (LE (V (prodA i)) (Mul (Num 1000) (Sub (Num 1) (V (deci i))))) m6;
                m8 = add (LE (V (prodB i)) (Mul (Num 1000) (V (deci i)))) m7;
                m9 = add (LE (Sub (V (deci i)) (V (deci (i - 1)))) (V (chan i))) m8;
                m10 = add (LE (Sub (V (deci (i - 1))) (V (deci i))) (V (chan i))) m9
            in Inr m10)))"

fun setup_loop :: "int list \<Rightarrow> int list \<Rightarrow> nat list \<Rightarrow> model \<Rightarrow> py_error + model" where
  "setup_loop cA cB [] m = Inr m"
| "setup_loop cA cB (i # is) m =
     (case loop_body cA cB i m of Inl e \<Rightarrow> Inl e | Inr m' \<Rightarrow> setup_loop cA cB is m')"

text \<open>Lines 75 to 79: the objective, with Python's precedence and associativity.\<close>

definition cost_expr :: expr where
  "cost_expr =
     Add (Add (py_sum (map (\<lambda>i. Add (Mul (V (prodA i)) (Num 225))
                                     (Mul (V (prodB i)) (Num 310))) week))
              (py_sum (map (\<lambda>i. Add (Mul (Mul (V (storA i)) (Num (375 / 100000))) (Num 225))
                                     (Mul (Div (Mul (V (storB i)) (Num (195 / 1000))) (Num 52))
                                          (Num 310))) week)))
         (Mul (Num 500) (py_sum (map (\<lambda>i. V (chan i)) week)))"

definition Objective :: "expr \<Rightarrow> model \<Rightarrow> model" where
  "Objective e m = m\<lparr>totalCost := Some e\<rparr>"

text \<open>Lines 12 to 79 for given demand lists.\<close>

definition build :: "int list \<Rightarrow> int list \<Rightarrow> py_error + model" where
  "build cA cB =
     (case setup_loop cA cB week (declare_vars ConcreteModel) of
        Inl e \<Rightarrow> Inl e
      | Inr m \<Rightarrow> Inr (Objective cost_expr m))"

text \<open>
  The model of the script: lines 5, 6 and 12 to 79 never fail on the lists of the
  source, so \<open>mdl\<close> is the model the solver receives.
\<close>

definition mdl :: model where
  "mdl = projr (build consA consB)"

subsection \<open>Feasible and optimal assignments\<close>

text \<open>
  \<open>feasible\<close> above is what the solver must respect: every declared variable in its
  domain, every constraint of the list true.  The objective has
  \<^verbatim>\<open>sense = minimize\<close>: an optimal assignment is a feasible one whose objective value
  no feasible assignment undercuts.
\<close>

definition optimal :: "model \<Rightarrow> assignment \<Rightarrow> bool" where
  "optimal m a \<longleftrightarrow>
     feasible m a \<and>
     (\<exists>e. totalCost m = Some e \<and> (\<forall>b. feasible m b \<longrightarrow> eval a e \<le> eval b e))"

subsection \<open>Solving and printing\<close>

text \<open>
  Line 82 hands the model to GLPK, an external program.  What comes back is a
  parameter of the embedding: a terminal status, and for every variable the number the
  solver loaded into it, or nothing (\<^verbatim>\<open>None\<close>).  The script writes the result block
  and goes on to print; it never reads the status.  Evaluating the objective over a
  variable without a value raises, and so does formatting \<^verbatim>\<open>None\<close> with width 6;
  the lines printed before an exception are not kept in the result.
\<close>

datatype status = Optimal | Infeasible | Unbounded | TimedOut | SolverError

record solver_result =
  status :: status
  loaded :: "var \<Rightarrow> int option"

fun expr_value :: "(var \<Rightarrow> int option) \<Rightarrow> expr \<Rightarrow> rat option" where
  "expr_value s (Num q) = Some q"
| "expr_value s (V v) = map_option of_int (s v)"
| "expr_value s (Add e f) =
     (case (expr_value s e, expr_value s f) of (Some x, Some y) \<Rightarrow> Some (x + y) | _ \<Rightarrow> None)"
| "expr_value s (Sub e f) =
     (case (expr_value s e, expr_value s f) of (Some x, Some y) \<Rightarrow> Some (x - y) | _ \<Rightarrow> None)"
| "expr_value s (Mul e f) =
     (case (expr_value s e, expr_value s f) of (Some x, Some y) \<Rightarrow> Some (x * y) | _ \<Rightarrow> None)"
| "expr_value s (Div e f) =
     (case (expr_value s e, expr_value s f) of (Some x, Some y) \<Rightarrow> Some (x / y) | _ \<Rightarrow> None)"

datatype cell = Blank | Number int

text \<open>One printed row: the values of \<open>x\<close> over the indices, each formatted in turn.\<close>

fun cells :: "(var \<Rightarrow> int option) \<Rightarrow> (nat \<Rightarrow> var) \<Rightarrow> nat list \<Rightarrow> py_error + cell list" where
  "cells s x [] = Inr []"
| "cells s x (i # is) =
     (case s (x i) of
        None \<Rightarrow> Inl TypeError
      | Some n \<Rightarrow> (case cells s x is of Inl e \<Rightarrow> Inl e | Inr cs \<Rightarrow> Inr (Number n # cs)))"

record report =
  results_block :: status
  Cost :: rat
  week_row :: "cell list"
  prodA_row :: "cell list"
  prodB_row :: "cell list"
  storA_row :: "cell list"
  storB_row :: "cell list"
  deci_row :: "cell list"
  chan_row :: "cell list"

definition bind_err :: "py_error + 'a \<Rightarrow> ('a \<Rightarrow> py_error + 'b) \<Rightarrow> py_error + 'b" where
  "bind_err x f = (case x of Inl e \<Rightarrow> Inl e | Inr y \<Rightarrow> f y)"

text \<open>Lines 82 to 130, in source order.\<close>

definition print_report :: "model \<Rightarrow> solver_result \<Rightarrow> py_error + report" where
  "print_report m r =
     (case totalCost m of
        None \<Rightarrow> Inl AttributeError
      | Some obj \<Rightarrow>
     (case expr_value (loaded r) obj of
        None \<Rightarrow> Inl ValueError
      | Some c \<Rightarrow>
          bind_err (cells (loaded r) prodA week) (\<lambda>pa.
          bind_err (cells (loaded r) prodB week) (\<lambda>pb.
          bind_err (cells (loaded r) storA weekZ) (\<lambda>sa.
          bind_err (cells (loaded r) storB weekZ) (\<lambda>sb.
          bind_err (cells (loaded r) deci weekZ) (\<lambda>de.
          bind_err (cells (loaded r) chan week) (\<lambda>ch.
            Inr \<lparr>results_block = status r, Cost = c,
                 week_row = map (\<lambda>i. Number (int i)) weekZ,
                 prodA_row = Blank # pa, prodB_row = Blank # pb,
                 storA_row = sa, storB_row = sb,
                 deci_row = de, chan_row = Blank # ch\<rparr>))))))))"

text \<open>
  The whole script for given demand lists and a given solver; main.py is
  \<open>program consA consB\<close>.  The process ends with status 0 when no exception escapes.
\<close>

definition program ::
  "int list \<Rightarrow> int list \<Rightarrow> (model \<Rightarrow> solver_result) \<Rightarrow> py_error + report" where
  "program cA cB solver = bind_err (build cA cB) (\<lambda>m. print_report m (solver m))"

definition exit_status :: "py_error + report \<Rightarrow> nat" where
  "exit_status out = (case out of Inl e \<Rightarrow> 1 | Inr rep \<Rightarrow> 0)"

text \<open>The plan a printed table shows: the number in each cell, 0 where there is none.\<close>

definition cell_at :: "cell list \<Rightarrow> nat \<Rightarrow> int" where
  "cell_at cs i = (if i < length cs then (case cs ! i of Blank \<Rightarrow> 0 | Number n \<Rightarrow> n) else 0)"

fun plan_of :: "report \<Rightarrow> assignment" where
  "plan_of rep (prodA i) = cell_at (prodA_row rep) i"
| "plan_of rep (prodB i) = cell_at (prodB_row rep) i"
| "plan_of rep (deci i) = cell_at (deci_row rep) i"
| "plan_of rep (chan i) = cell_at (chan_row rep) i"
| "plan_of rep (storA i) = cell_at (storA_row rep) i"
| "plan_of rep (storB i) = cell_at (storB_row rep) i"

subsection \<open>The cost formula of the specification\<close>

text \<open>
  The closed form of the specification, with the constants the script uses: unit costs
  225 and 310, holding rates \<^verbatim>\<open>0.00375*225\<close> and \<^verbatim>\<open>0.195/52*310\<close> per unit and week,
  500 per changeover.
\<close>

definition costA :: rat where "costA = 225"
definition costB :: rat where "costB = 310"
definition holdRateA :: rat where "holdRateA = 375 / 100000 * 225"
definition holdRateB :: rat where "holdRateB = 195 / 1000 / 52 * 310"
definition changeoverCost :: rat where "changeoverCost = 500"

definition spec_cost :: "assignment \<Rightarrow> rat" where
  "spec_cost a =
     (\<Sum>i\<leftarrow>week. of_int (a (prodA i)) * costA + of_int (a (prodB i)) * costB) +
     (\<Sum>i\<leftarrow>week. of_int (a (storA i)) * holdRateA + of_int (a (storB i)) * holdRateB) +
     changeoverCost * (\<Sum>i\<leftarrow>week. of_int (a (chan i)))"

subsection \<open>Notions used in the proofs\<close>

text \<open>An integer that converts to a double, and the safety threshold computed from it.\<close>

definition fits :: "int \<Rightarrow> bool" where
  "fits x \<longleftrightarrow> \<bar>rnd (of_int x)\<bar> < pow2 1024"

definition thr :: "int \<Rightarrow> rat" where
  "thr x = float_mul (rnd (8 / 10)) (rnd (of_int x))"

text \<open>The ten constraints one pass of the loop adds, for demands \<open>x\<close> and \<open>y\<close>.\<close>

definition week_cons :: "int \<Rightarrow> int \<Rightarrow> nat \<Rightarrow> constr list" where
  "week_cons x y i =
     [LE (V (prodA i)) (Num 100),
      LE (V (prodB i)) (Num 80),
      GE (V (storA (i - 1))) (Num (thr x)),
      GE (V (storB (i - 1))) (Num (thr y)),
      EQ (V (storA i)) (Sub (Add (V (storA (i - 1))) (V (prodA i))) (Num (of_int x))),
      EQ (V (storB i)) (Sub (Add (V (storB (i - 1))) (V (prodB i))) (Num (of_int y))),
      LE (V (prodA i)) (Mul (Num 1000) (Sub (Num 1) (V (deci i)))),
      LE (V (prodB i)) (Mul (Num 1000) (V (deci i))),
      LE (Sub (V (deci i)) (V (deci (i - 1)))) (V (chan i)),
      LE (Sub (V (deci (i - 1))) (V (deci i))) (V (chan i))]"

text \<open>
  What these ten constraints say of an assignment, and the same with the thresholds
  8/10 of the demand; for the demands of the script the two agree on integer stocks.
\<close>

definition week_sat :: "assignment \<Rightarrow> int \<Rightarrow> int \<Rightarrow> nat \<Rightarrow> bool" where
  "week_sat a x y i \<longleftrightarrow>
     a (prodA i) \<le> 100 \<and> a (prodB i) \<le> 80 \<and>
     thr x \<le> of_int (a (storA (i - 1))) \<and>
     thr y \<le> of_int (a (storB (i - 1))) \<and>
     a (storA i) = a (storA (i - 1)) + a (prodA i) - x \<and>
     a (storB i) = a (storB (i - 1)) + a (prodB i) - y \<and>
     a (prodA i) \<le> 1000 * (1 - a (deci i)) \<and>
     a (prodB i) \<le> 1000 * a (deci i) \<and>
     a (deci i) - a (deci (i - 1)) \<le> a (chan i) \<and>
     a (deci (i - 1)) - a (deci i) \<le> a (chan i)"

definition week_ok :: "assignment \<Rightarrow> int \<Rightarrow> int \<Rightarrow> nat \<Rightarrow> bool" where
  "week_ok a x y i \<longleftrightarrow>
     a (prodA i) \<le> 100 \<and> a (prodB i) \<le> 80 \<and>
     (8 / 10 * of_int x :: rat) \<le> of_int (a (storA (i - 1))) \<and>
     (8 / 10 * of_int y :: rat) \<le> of_int (a (storB (i - 1))) \<and>
     a (storA i) = a (storA (i - 1)) + a (prodA i) - x \<and>
     a (storB i) = a (storB (i - 1)) + a (prodB i) - y \<and>
     a (prodA i) \<le> 1000 * (1 - a (deci i)) \<and>
     a (prodB i) \<le> 1000 * a (deci i) \<and>
     a (deci i) - a (deci (i - 1)) \<le> a (chan i) \<and>
     a (deci (i - 1)) - a (deci i) \<le> a (chan i)"

definition init_decls :: "(var \<times> domain) list" where
  "init_decls =
     map (\<lambda>i. (prodA i, NonNegativeIntegers)) week @
     map (\<lambda>i. (prodB i, NonNegativeIntegers)) week @
     map (\<lambda>i. (deci i, Binary)) weekZ @
     map (\<lambda>i. (chan i, Binary)) week @
     map (\<lambda>i. (storA i, NonNegativeIntegers)) weekZ @
     map (\<lambda>i. (storB i, NonNegativeIntegers)) weekZ"

definition init_cons :: "constr list" where
  "init_cons = [EQ (V (deci 0)) (Num 0), EQ (V (storA 0)) (Num 125), EQ (V (storB 0)) (Num 143)]"

definition domains_ok :: "assignment \<Rightarrow> bool" where
  "domains_ok a \<longleftrightarrow>
     (\<forall>i \<in> set week. 0 \<le> a (prodA i) \<and> 0 \<le> a (prodB i) \<and> (a (chan i) = 0 \<or> a (chan i) = 1)) \<and>
     (\<forall>i \<in> set weekZ. (a (deci i) = 0 \<or> a (deci i) = 1) \<and> 0 \<le> a (storA i) \<and> 0 \<le> a (storB i))"

text \<open>
  A plan for the demand of the script, week by week (index 0 is the initial week): all
  of A is built in weeks 1 to 3, the line changes over once, in week 4, and B is built
  just in time.  It is feasible, and no feasible plan is cheaper; both are proved below.
\<close>

definition entry :: "int list \<Rightarrow> nat \<Rightarrow> int" where
  "entry xs i = (if i < length xs then xs ! i else 0)"

fun ref_plan :: assignment where
  "ref_plan (prodA i) = entry [0, 25, 100, 100, 0, 0, 0, 0, 0, 0] i"
| "ref_plan (prodB i) = entry [0, 0, 0, 0, 2, 48, 56, 57, 58, 11] i"
| "ref_plan (deci i) = entry [0, 0, 0, 0, 1, 1, 1, 1, 1, 1] i"
| "ref_plan (chan i) = entry [0, 0, 0, 0, 1, 0, 0, 0, 0, 0] i"
| "ref_plan (storA i) = entry [125, 95, 140, 196, 196, 151, 106, 70, 35, 0] i"
| "ref_plan (storB i) = entry [143, 105, 67, 37, 39, 39, 47, 46, 47, 0] i"

text \<open>A solver that stops at its time limit with this plan loaded.\<close>

definition stalled_solver :: "model \<Rightarrow> solver_result" where
  "stalled_solver m = \<lparr>status = TimedOut, loaded = (\<lambda>v. Some (ref_plan v))\<rparr>"

subsection \<open>A lower bound on the cost, by line-state pattern\<close>

text \<open>
  For the proof that the plan above is optimal.  With the line states of weeks 9 down
  to 1 fixed, the least stock each week can end with is found going backwards: the
  stock carried into a week is at least the safety floor, at least what is left of the
  initial stock when nothing is produced, and at least what the next stock needs beyond
  the capacity of the week.  Costs are scaled by 160 so that they are integers.
\<close>

definition capA :: "int \<Rightarrow> int" where
  "capA d = (if d = 0 then 100 else 0)"

definition capB :: "int \<Rightarrow> int" where
  "capB d = (if d = 1 then 80 else 0)"

definition cum :: "int list \<Rightarrow> nat \<Rightarrow> int" where
  "cum cons i = sum_list (map (\<lambda>j. cons ! j) [1..<Suc i])"

definition floor_row :: "int list \<Rightarrow> int \<Rightarrow> nat \<Rightarrow> int \<times> int" where
  "floor_row cons s0 i =
     (max ((4 * (cons ! i) + 4) div 5) (s0 - cum cons (i - 1)), cons ! i)"

definition floorsA :: "(int \<times> int) list" where
  "floorsA = map (floor_row consA 125) (rev week)"

definition floorsB :: "(int \<times> int) list" where
  "floorsB = map (floor_row consB 143) (rev week)"

definition rows ::
  "(int \<times> int) list \<Rightarrow> (int \<Rightarrow> int) \<Rightarrow> int list \<Rightarrow> (int \<times> int \<times> int) list" where
  "rows fl cap ds = map (\<lambda>((L, c), d). (L, c, cap d)) (zip fl ds)"

fun lb :: "int \<Rightarrow> int \<Rightarrow> (int \<times> int \<times> int) list \<Rightarrow> int \<times> int" where
  "lb m acc [] = (m, acc)"
| "lb m acc ((L, c, cap) # rs) = lb (max L (m + c - cap)) (acc + m) rs"

fun act :: "int \<Rightarrow> int \<Rightarrow> int list \<Rightarrow> int \<times> int" where
  "act s acc [] = (s, acc)"
| "act s acc (s' # ss) = act s' (acc + s) ss"

fun traj_ok :: "int \<Rightarrow> (int \<times> int \<times> int) list \<Rightarrow> int list \<Rightarrow> bool" where
  "traj_ok s [] [] = True"
| "traj_ok s ((L, c, cap) # rs) (s' # ss) = (L \<le> s' \<and> s + c - cap \<le> s' \<and> traj_ok s' rs ss)"
| "traj_ok s rs ss = False"

fun sw :: "int list \<Rightarrow> int" where
  "sw (x # y # zs) = \<bar>x - y\<bar> + sw (y # zs)"
| "sw zs = 0"

definition pattern_bound :: "int list \<Rightarrow> int option" where
  "pattern_bound ds =
     (case (lb 0 0 (rows floorsA capA ds), lb 0 0 (rows floorsB capB ds)) of
        ((mA, SA), (mB, SB)) \<Rightarrow>
          if 125 < mA \<or> 143 < mB then None
          else Some (36000 * 225 + 49600 * 232 + 135 * SA + 186 * SB + 80000 * sw (ds @ [0])))"

definition pattern_ok :: "int list \<Rightarrow> bool" where
  "pattern_ok ds = (case pattern_bound ds of None \<Rightarrow> True | Some v \<Rightarrow> 19900137 \<le> v)"

definition icost :: "assignment \<Rightarrow> int" where
  "icost a =
     36000 * (\<Sum>i\<leftarrow>week. a (prodA i)) + 49600 * (\<Sum>i\<leftarrow>week. a (prodB i)) +
     135 * (\<Sum>i\<leftarrow>week. a (storA i)) + 186 * (\<Sum>i\<leftarrow>week. a (storB i)) +
     80000 * (\<Sum>i\<leftarrow>week. a (chan i))"

section \<open>The builder\<close>

section \<open>Rounding to a double\<close>

lemma pow2_powi: "pow2 e = 2 powi e"
  by (simp add: pow2_def power_int_def inverse_eq_divide power_divide)

lemma pow2_pos [simp]: "0 < pow2 e"
  by (simp add: pow2_powi)

lemma pow2_neq0 [simp]: "pow2 e \<noteq> 0"
  using pow2_pos [of e] by (simp only: less_imp_neq [symmetric] not_False_eq_True)

lemma pow2_add: "pow2 (a + b) = pow2 a * pow2 b"
  by (simp add: pow2_powi power_int_add)

lemma pow2_diff: "pow2 (a - b) = pow2 a / pow2 b"
  by (simp add: pow2_powi power_int_diff)

lemma pow2_nat: "pow2 (int n) = 2 ^ n"
  by (simp add: pow2_def)

lemma pow2_less_iff: "pow2 a < pow2 b \<longleftrightarrow> a < b"
proof
  assume "a < b"
  then show "pow2 a < pow2 b"
    unfolding pow2_powi by (intro power_int_strict_increasing) simp_all
next
  assume l: "pow2 a < pow2 b"
  show "a < b"
  proof (rule ccontr)
    assume "\<not> a < b"
    then have "b \<le> a" by simp
    then have "pow2 b \<le> pow2 a"
      unfolding pow2_powi by (intro power_int_increasing) simp_all
    with l show False by simp
  qed
qed

lemma pow2_le_iff: "pow2 a \<le> pow2 b \<longleftrightarrow> a \<le> b"
  using pow2_less_iff [of b a] by (simp add: not_less [symmetric])

lemma ilog2_bounds:
  assumes "0 < x"
  shows "pow2 (ilog2 x) \<le> x" and "x < pow2 (ilog2 x + 1)"
proof -
  obtain p q where pq: "quotient_of x = (p, q)" by (cases "quotient_of x")
  then have q: "0 < q" by (rule quotient_of_denom_pos)
  have x: "x = of_int p / of_int q" using pq by (rule quotient_of_div)
  have p: "0 < p"
    using assms q unfolding x by (simp add: zero_less_divide_iff)
  define l where "l = bitlen p - bitlen q"
  have bp: "pow2 (bitlen p - 1) \<le> of_int p" "of_int p < pow2 (bitlen p)"
  proof -
    have "2 ^ nat (bitlen p - 1) \<le> p" "p < 2 ^ nat (bitlen p)"
      using bitlen_bounds [OF p] by simp_all
    then have "(of_int (2 ^ nat (bitlen p - 1)) :: rat) \<le> of_int p"
      "(of_int p :: rat) < of_int (2 ^ nat (bitlen p))"
      by (simp_all only: of_int_le_iff of_int_less_iff)
    moreover have "1 \<le> bitlen p" using p by (simp add: bitlen_alt_def)
    ultimately show "pow2 (bitlen p - 1) \<le> of_int p" "of_int p < pow2 (bitlen p)"
      using bitlen_nonneg [of p] by (simp_all add: pow2_def)
  qed
  have bq: "pow2 (bitlen q - 1) \<le> of_int q" "of_int q < pow2 (bitlen q)"
  proof -
    have "2 ^ nat (bitlen q - 1) \<le> q" "q < 2 ^ nat (bitlen q)"
      using bitlen_bounds [OF q] by simp_all
    then have "(of_int (2 ^ nat (bitlen q - 1)) :: rat) \<le> of_int q"
      "(of_int q :: rat) < of_int (2 ^ nat (bitlen q))"
      by (simp_all only: of_int_le_iff of_int_less_iff)
    moreover have "1 \<le> bitlen q" using q by (simp add: bitlen_alt_def)
    ultimately show "pow2 (bitlen q - 1) \<le> of_int q" "of_int q < pow2 (bitlen q)"
      using bitlen_nonneg [of q] by (simp_all add: pow2_def)
  qed
  have qpos: "(0::rat) < of_int q" using q by simp
  have upper: "x < pow2 (l + 1)"
  proof -
    have "of_int p < pow2 (l + 1) * pow2 (bitlen q - 1)"
      using bp(2) by (simp add: l_def pow2_add [symmetric])
    also have "\<dots> \<le> pow2 (l + 1) * of_int q"
      using bq(1) by (simp add: mult_left_mono less_imp_le)
    finally show ?thesis
      unfolding x using qpos by (simp add: pos_divide_less_eq)
  qed
  have lower: "pow2 (l - 1) < x"
  proof -
    have "pow2 (l - 1) * of_int q < pow2 (l - 1) * pow2 (bitlen q)"
      using bq(2) by (simp add: mult_strict_left_mono)
    also have "\<dots> = pow2 (bitlen p - 1)"
      by (simp add: l_def pow2_add [symmetric])
    also have "\<dots> \<le> of_int p" by (rule bp(1))
    finally show ?thesis
      unfolding x using qpos by (simp add: pos_less_divide_eq)
  qed
  have il: "ilog2 x = (if pow2 l \<le> x then l else l - 1)"
    by (simp add: ilog2_def pq l_def Let_def)
  show "pow2 (ilog2 x) \<le> x"
    using lower by (simp add: il less_imp_le)
  show "x < pow2 (ilog2 x + 1)"
    using upper by (auto simp add: il not_le)
qed

lemma ilog2_unique:
  assumes "pow2 k \<le> x" and "x < pow2 (k + 1)"
  shows "ilog2 x = k"
proof -
  have x: "0 < x" using assms(1) pow2_pos [of k] by (rule less_le_trans [rotated])
  have "pow2 (ilog2 x) < pow2 (k + 1)"
    using ilog2_bounds(1) [OF x] assms(2) by (rule le_less_trans)
  moreover have "pow2 k < pow2 (ilog2 x + 1)"
    using assms(1) ilog2_bounds(2) [OF x] by (rule le_less_trans)
  ultimately show ?thesis by (simp add: pow2_less_iff)
qed

lemma round_half_even_of_int [simp]: "round_half_even (of_int n) = n"
  by (simp add: round_half_even_def)

lemma round_half_even_error: "\<bar>of_int (round_half_even r) - r\<bar> \<le> 1 / 2"
proof -
  have "of_int \<lfloor>r\<rfloor> \<le> r" "r < of_int \<lfloor>r\<rfloor> + 1" by linarith+
  then show ?thesis
    by (auto simp add: round_half_even_def Let_def)
qed

lemma ilog2_scale:
  assumes "0 < x"
  shows "ilog2 (x * pow2 e) = ilog2 x + e"
proof (rule ilog2_unique)
  show "pow2 (ilog2 x + e) \<le> x * pow2 e"
    using ilog2_bounds(1) [OF assms] by (simp add: pow2_add mult_right_mono less_imp_le)
  have "x * pow2 e < pow2 (ilog2 x + 1) * pow2 e"
    using ilog2_bounds(2) [OF assms] by (simp add: mult_strict_right_mono)
  then show "x * pow2 e < pow2 (ilog2 x + e + 1)"
    by (simp add: pow2_add ac_simps)
qed

text \<open>A number that is a double is rounded to itself.\<close>

lemma rnd_repr:
  assumes "\<bar>n\<bar> < 2 ^ 53" and "- 1074 \<le> e"
  shows "rnd (of_int n * pow2 e) = of_int n * pow2 e"
proof (cases "n = 0")
  case True
  then show ?thesis by (simp add: rnd_def)
next
  case False
  define x :: rat where "x = of_int n * pow2 e"
  define k where "k = ilog2 (of_int \<bar>n\<bar>)"
  have npos: "(0::rat) < of_int \<bar>n\<bar>" using False by simp
  have ax: "\<bar>x\<bar> = of_int \<bar>n\<bar> * pow2 e"
    by (simp add: x_def abs_mult abs_of_pos)
  have x0: "x \<noteq> 0" using False by (simp add: x_def less_imp_neq [OF pow2_pos, symmetric])
  have "pow2 k \<le> of_int \<bar>n\<bar>" unfolding k_def using npos by (rule ilog2_bounds(1))
  also have "(of_int \<bar>n\<bar> :: rat) < of_int (2 ^ 53)"
    using assms(1) by (simp only: of_int_less_iff)
  also have "(of_int (2 ^ 53) :: rat) = pow2 53" by (simp add: pow2_def)
  finally have k: "k \<le> 52" by (simp add: pow2_less_iff)
  have il: "ilog2 \<bar>x\<bar> = k + e"
    unfolding ax k_def using npos by (rule ilog2_scale)
  define g where "g = max (k + e - 52) (- 1074)"
  have ge: "g \<le> e" using k assms(2) by (simp add: g_def)
  define d where "d = nat (e - g)"
  have e: "e = int d + g" using ge by (simp add: d_def)
  have "\<bar>x\<bar> / pow2 g = of_int \<bar>n\<bar> * pow2 (int d)"
    unfolding ax by (subst e) (simp add: pow2_add)
  also have "\<dots> = of_int (\<bar>n\<bar> * 2 ^ d)" by (simp add: pow2_nat)
  finally have q: "\<bar>x\<bar> / pow2 g = of_int (\<bar>n\<bar> * 2 ^ d)" .
  have "rnd x = sgn x * of_int (\<bar>n\<bar> * 2 ^ d) * pow2 g"
    using x0 by (simp add: rnd_def Let_def il g_def [symmetric] q del: of_int_mult of_int_power)
  also have "\<dots> = sgn x * (of_int \<bar>n\<bar> * pow2 (int d) * pow2 g)"
    by (simp add: pow2_nat)
  also have "of_int \<bar>n\<bar> * pow2 (int d) * pow2 g = \<bar>x\<bar>"
  proof -
    have "pow2 e = pow2 (int d) * pow2 g"
      using pow2_add [of "int d" g] by (simp only: e [symmetric])
    then show ?thesis unfolding ax by simp
  qed
  also have "sgn x * \<bar>x\<bar> = x" by (simp add: sgn_mult_abs)
  finally show ?thesis by (simp add: x_def)
qed

lemma rnd_of_int:
  assumes "\<bar>n\<bar> < 2 ^ 53"
  shows "rnd (of_int n) = of_int n"
  using rnd_repr [OF assms, of 0] by (simp add: pow2_def)

lemma fits_small:
  assumes "\<bar>n\<bar> < 2 ^ 53"
  shows "fits n"
proof -
  have "(of_int \<bar>n\<bar> :: rat) < of_int (2 ^ 53)"
    using assms by (simp only: of_int_less_iff)
  also have "(of_int (2 ^ 53) :: rat) = pow2 53" by (simp add: pow2_def)
  also have "pow2 53 < pow2 1024" by (simp add: pow2_less_iff)
  finally show ?thesis by (simp add: fits_def rnd_of_int [OF assms])
qed


lemma float_of_int_fits: "fits x \<Longrightarrow> float_of_int x = Inr (rnd (of_int x))"
  by (simp add: float_of_int_def fits_def Let_def not_le)


lemma loop_body_Inr:
  assumes "i < length cA" "i < length cB" "fits (cA ! i)" "fits (cB ! i)"
  shows "loop_body cA cB i m =
           Inr (m\<lparr>conList := conList m @ week_cons (cA ! i) (cB ! i) i\<rparr>)"
  using assms
  by (simp add: loop_body_def getitem_def float_of_int_fits add_def week_cons_def thr_def)



lemma setup_loop_Inr:
  assumes "\<forall>i \<in> set is. i < length cA \<and> i < length cB \<and> fits (cA ! i) \<and> fits (cB ! i)"
  shows "setup_loop cA cB is m =
           Inr (m\<lparr>conList := conList m @ concat (map (\<lambda>i. week_cons (cA ! i) (cB ! i) i) is)\<rparr>)"
  using assms
proof (induction "is" arbitrary: m)
  case Nil
  then show ?case by simp
next
  case (Cons i "is")
  then show ?case by (simp add: loop_body_Inr)
qed




lemma holds_LE_num: "holds a (LE (V v) (Num (of_int c))) \<longleftrightarrow> a v \<le> c"
  by simp

lemma holds_GE_safety:
  "holds a (GE (V v) (Num (thr x))) \<longleftrightarrow> thr x \<le> of_int (a v)"
  by simp

lemma holds_EQ_balance:
  "holds a (EQ (V u) (Sub (Add (V v) (V w)) (Num (of_int x)))) \<longleftrightarrow> a u = a v + a w - x"
proof -
  have "eval a (Sub (Add (V v) (V w)) (Num (of_int x))) = of_int (a v + a w - x)" by simp
  then show ?thesis by (simp only: holds.simps eval.simps of_int_eq_iff)
qed

lemma holds_LE_bigM_A:
  "holds a (LE (V v) (Mul (Num 1000) (Sub (Num 1) (V w)))) \<longleftrightarrow> a v \<le> 1000 * (1 - a w)"
proof -
  have "eval a (Mul (Num 1000) (Sub (Num 1) (V w))) = of_int (1000 * (1 - a w))" by simp
  then show ?thesis by (simp only: holds.simps eval.simps of_int_le_iff)
qed

lemma holds_LE_bigM_B:
  "holds a (LE (V v) (Mul (Num 1000) (V w))) \<longleftrightarrow> a v \<le> 1000 * a w"
proof -
  have "eval a (Mul (Num 1000) (V w)) = of_int (1000 * a w)" by simp
  then show ?thesis by (simp only: holds.simps eval.simps of_int_le_iff)
qed

lemma holds_LE_diff:
  "holds a (LE (Sub (V u) (V v)) (V w)) \<longleftrightarrow> a u - a v \<le> a w"
proof -
  have "eval a (Sub (V u) (V v)) = of_int (a u - a v)" by simp
  then show ?thesis by (simp only: holds.simps eval.simps of_int_le_iff)
qed

lemma holds_week_cons:
  "list_all (holds a) (week_cons x y i) \<longleftrightarrow> week_sat a x y i"
proof -
  have n: "Num 100 = Num (of_int 100)" "Num 80 = Num (of_int 80)" by simp_all
  show ?thesis
    unfolding week_cons_def week_sat_def n
    by (simp only: list.pred_inject holds_LE_num holds_GE_safety holds_EQ_balance
        holds_LE_bigM_A holds_LE_bigM_B holds_LE_diff simp_thms)
qed

lemma declare_vars_eq:
  "declare_vars ConcreteModel = \<lparr>decls = init_decls, conList = init_cons, totalCost = None\<rparr>"
  by (simp add: declare_vars_def ConcreteModel_def Var_def add_def init_decls_def init_cons_def)

lemma build_Inr:
  assumes "10 \<le> length cA" "10 \<le> length cB"
    and "\<forall>i \<in> set week. fits (cA ! i) \<and> fits (cB ! i)"
  shows "build cA cB =
           Inr \<lparr>decls = init_decls,
                conList = init_cons @ concat (map (\<lambda>i. week_cons (cA ! i) (cB ! i) i) week),
                totalCost = Some cost_expr\<rparr>"
proof -
  have "\<forall>i \<in> set week. i < length cA \<and> i < length cB \<and> fits (cA ! i) \<and> fits (cB ! i)"
    using assms by (auto simp add: week_def)
  then show ?thesis
    by (simp add: build_def setup_loop_Inr declare_vars_eq Objective_def)
qed



lemma fits_script: "\<forall>i \<in> set week. fits (consA ! i) \<and> fits (consB ! i)"
proof
  fix i assume "i \<in> set week"
  then have "\<bar>consA ! i\<bar> < 2 ^ 53 \<and> \<bar>consB ! i\<bar> < 2 ^ 53"
    by (auto simp add: week_def consA_def consB_def nth_Cons' split: if_splits)
  then show "fits (consA ! i) \<and> fits (consB ! i)"
    by (simp add: fits_small)
qed

lemma mdl_eq:
  "mdl = \<lparr>decls = init_decls,
          conList = init_cons @ concat (map (\<lambda>i. week_cons (consA ! i) (consB ! i) i) week),
          totalCost = Some cost_expr\<rparr>"
proof -
  have "10 \<le> length consA" "10 \<le> length consB" by (simp_all add: consA_def consB_def)
  then show ?thesis by (simp add: mdl_def build_Inr fits_script)
qed

lemma build_mdl: "build consA consB = Inr mdl"
proof -
  have "10 \<le> length consA" "10 \<le> length consB" by (simp_all add: consA_def consB_def)
  then show ?thesis by (simp add: mdl_def build_Inr fits_script)
qed

lemma list_all_init_decls:
  "list_all (\<lambda>(v, d). in_domain d (a v)) init_decls \<longleftrightarrow> domains_ok a"
  unfolding init_decls_def domains_ok_def
  by (simp add: list_all_iff ball_Un) blast

lemma list_all_init_cons:
  "list_all (holds a) init_cons \<longleftrightarrow> a (deci 0) = 0 \<and> a (storA 0) = 125 \<and> a (storB 0) = 143"
  by (simp add: init_cons_def)

lemma list_all_concat_map:
  "list_all P (concat (map f xs)) \<longleftrightarrow> (\<forall>x \<in> set xs. list_all P (f x))"
  by (induction xs) auto

text \<open>
  The thresholds of the script are doubles such as 30.400000000000002; on integer
  stocks they ask the same as 8/10 of the demand.
\<close>

lemma thr_ceiling_script:
  "\<forall>i \<in> set week. \<lceil>thr (consA ! i)\<rceil> = \<lceil>8 / 10 * of_int (consA ! i) :: rat\<rceil> \<and>
                  \<lceil>thr (consB ! i)\<rceil> = \<lceil>8 / 10 * of_int (consB ! i) :: rat\<rceil>"
  by code_simp

lemma week_sat_script:
  assumes "i \<in> set week"
  shows "week_sat a (consA ! i) (consB ! i) i \<longleftrightarrow> week_ok a (consA ! i) (consB ! i) i"
proof -
  have c: "\<lceil>thr (consA ! i)\<rceil> = \<lceil>8 / 10 * of_int (consA ! i) :: rat\<rceil>"
    "\<lceil>thr (consB ! i)\<rceil> = \<lceil>8 / 10 * of_int (consB ! i) :: rat\<rceil>"
    using thr_ceiling_script assms by blast+
  have "thr (consA ! i) \<le> of_int s \<longleftrightarrow> (8 / 10 * of_int (consA ! i) :: rat) \<le> of_int s" for s
    using c(1) by (simp only: ceiling_le_iff [symmetric])
  moreover have "thr (consB ! i) \<le> of_int s \<longleftrightarrow> (8 / 10 * of_int (consB ! i) :: rat) \<le> of_int s" for s
    using c(2) by (simp only: ceiling_le_iff [symmetric])
  ultimately show ?thesis by (simp only: week_sat_def week_ok_def)
qed

lemma feasible_mdl_iff:
  "feasible mdl a \<longleftrightarrow>
     domains_ok a \<and> a (deci 0) = 0 \<and> a (storA 0) = 125 \<and> a (storB 0) = 143 \<and>
     (\<forall>i \<in> set week. week_ok a (consA ! i) (consB ! i) i)"
  by (simp add: feasible_def mdl_eq list_all_init_decls list_all_init_cons
      list_all_concat_map holds_week_cons week_sat_script)

lemma week_list: "week = [1, 2, 3, 4, 5, 6, 7, 8, 9]"
  by (simp add: week_def upt_rec)

lemma weekZ_list: "weekZ = [0, 1, 2, 3, 4, 5, 6, 7, 8, 9]"
  by (simp add: weekZ_def upt_rec)

lemma set_week: "set week = {1..9}"
  by (auto simp add: week_def)

lemma set_weekZ: "set weekZ = {0..9}"
  by (auto simp add: weekZ_def)

lemma pred_week: "i \<in> set week \<Longrightarrow> i - 1 \<in> set weekZ"
  by (auto simp add: week_def weekZ_def)

lemma week_weekZ: "i \<in> set week \<Longrightarrow> i \<in> set weekZ"
  by (auto simp add: week_def weekZ_def)

lemma feasible_week:
  "feasible mdl a \<Longrightarrow> i \<in> set week \<Longrightarrow> week_ok a (consA ! i) (consB ! i) i"
  by (simp add: feasible_mdl_iff)

lemma feasible_domains: "feasible mdl a \<Longrightarrow> domains_ok a"
  by (simp add: feasible_mdl_iff)

section \<open>A feasible plan\<close>

lemma ref_plan_feasible: "feasible mdl ref_plan"
  by (simp add: feasible_mdl_iff domains_ok_def week_ok_def week_list weekZ_list
      consA_def consB_def entry_def)

section \<open>Invariants of every feasible assignment\<close>

text \<open>
  C3.  In every feasible assignment of the built model, for both products and every
  week \<open>i\<close> of 1..9, the stock at the end of week \<open>i\<close> is the stock at the end of week
  \<open>i - 1\<close> plus the production of week \<open>i\<close> minus the demand of week \<open>i\<close>, exactly.
\<close>

theorem inventory_balance:
  assumes "feasible mdl a" and "i \<in> set week"
  shows "a (storA i) = a (storA (i - 1)) + a (prodA i) - consA ! i \<and>
         a (storB i) = a (storB (i - 1)) + a (prodB i) - consB ! i"
  using feasible_week [OF assms] by (simp add: week_ok_def)

theorem inventory_balance_witness:
  "feasible mdl ref_plan \<and> 5 \<in> set week \<and>
   ref_plan (storA 5) = ref_plan (storA (5 - 1)) + ref_plan (prodA 5) - consA ! 5 \<and>
   ref_plan (storB 5) = ref_plan (storB (5 - 1)) + ref_plan (prodB 5) - consB ! 5"
proof -
  have w: "5 \<in> set week" by (simp add: week_def)
  show ?thesis
    using inventory_balance [OF ref_plan_feasible w] ref_plan_feasible w by simp
qed

text \<open>
  C4.  The two demand-fulfilment constraints of lines 53 and 56 are commented out and
  are not in the constraint list; all the same, in every feasible assignment the
  production of week \<open>i\<close> plus the stock carried into it covers the demand of week \<open>i\<close>,
  for both products and every week of 1..9.
\<close>

theorem demand_always_met:
  assumes "feasible mdl a" and "i \<in> set week"
  shows "GE (Add (V (prodA i)) (V (storA (i - 1)))) (Num (of_int (consA ! i))) \<notin> set (conList mdl) \<and>
         GE (Add (V (prodB i)) (V (storB (i - 1)))) (Num (of_int (consB ! i))) \<notin> set (conList mdl) \<and>
         consA ! i \<le> a (prodA i) + a (storA (i - 1)) \<and>
         consB ! i \<le> a (prodB i) + a (storB (i - 1))"
proof -
  have absent: "GE (Add e f) g \<notin> set (conList mdl)" for e f g
    by (auto simp add: mdl_eq init_cons_def week_cons_def)
  have w: "week_ok a (consA ! i) (consB ! i) i"
    using feasible_week [OF assms] .
  have "i \<in> set weekZ" using assms(2) by (rule week_weekZ)
  then have nonneg: "0 \<le> a (storA i)" "0 \<le> a (storB i)"
    using feasible_domains [OF assms(1)] by (simp_all add: domains_ok_def)
  have "consA ! i \<le> a (prodA i) + a (storA (i - 1))"
    using w nonneg(1) by (simp add: week_ok_def)
  moreover have "consB ! i \<le> a (prodB i) + a (storB (i - 1))"
    using w nonneg(2) by (simp add: week_ok_def)
  ultimately show ?thesis using absent by simp
qed

theorem demand_always_met_witness:
  "feasible mdl ref_plan \<and> 6 \<in> set week \<and>
   consA ! 6 \<le> ref_plan (prodA 6) + ref_plan (storA (6 - 1)) \<and>
   consB ! 6 \<le> ref_plan (prodB 6) + ref_plan (storB (6 - 1))"
proof -
  have w: "6 \<in> set week" by (simp add: week_def)
  show ?thesis
    using demand_always_met [OF ref_plan_feasible w] ref_plan_feasible w by simp
qed

text \<open>
  C5.  In every feasible assignment and every week \<open>i\<close> of 1..9 both big-M constraints
  hold (the constant is 1000), so a week with production of A has line state 0, a week
  with production of B has line state 1, and no week produces both.
\<close>

theorem bigM_exclusion:
  assumes "feasible mdl a" and "i \<in> set week"
  shows "a (prodA i) \<le> 1000 * (1 - a (deci i)) \<and>
         a (prodB i) \<le> 1000 * a (deci i) \<and>
         (0 < a (prodA i) \<longrightarrow> a (deci i) = 0) \<and>
         (0 < a (prodB i) \<longrightarrow> a (deci i) = 1) \<and>
         (a (prodA i) = 0 \<or> a (prodB i) = 0)"
proof -
  have w: "week_ok a (consA ! i) (consB ! i) i"
    using feasible_week [OF assms] .
  have "i \<in> set weekZ" using assms(2) by (rule week_weekZ)
  then have d: "a (deci i) = 0 \<or> a (deci i) = 1" and p: "0 \<le> a (prodA i)" "0 \<le> a (prodB i)"
    using feasible_domains [OF assms(1)] assms(2) by (simp_all add: domains_ok_def)
  have bA: "a (prodA i) \<le> 1000 * (1 - a (deci i))" and bB: "a (prodB i) \<le> 1000 * a (deci i)"
    using w by (simp_all add: week_ok_def)
  from d show ?thesis
  proof
    assume "a (deci i) = 0"
    with bA bB p show ?thesis by simp
  next
    assume "a (deci i) = 1"
    with bA bB p show ?thesis by simp
  qed
qed

theorem bigM_exclusion_witness:
  "feasible mdl ref_plan \<and> 2 \<in> set week \<and> 0 < ref_plan (prodA 2) \<and>
   ref_plan (deci 2) = 0 \<and> ref_plan (prodB 2) = 0 \<and>
   7 \<in> set week \<and> 0 < ref_plan (prodB 7) \<and>
   ref_plan (deci 7) = 1 \<and> ref_plan (prodA 7) = 0"
proof -
  have w: "2 \<in> set week" "7 \<in> set week" by (simp_all add: week_def)
  have pos: "0 < ref_plan (prodA 2)" "0 < ref_plan (prodB 7)" by (simp_all add: entry_def)
  show ?thesis
    using bigM_exclusion [OF ref_plan_feasible w(1)] bigM_exclusion [OF ref_plan_feasible w(2)]
      ref_plan_feasible w pos
    by simp
qed

text \<open>
  C7.  In every feasible assignment, for both products and every week \<open>i\<close> of 1..9, the
  stock carried into week \<open>i\<close> is at least 0.8 times the demand of week \<open>i\<close>.
\<close>

theorem safety_stock:
  assumes "feasible mdl a" and "i \<in> set week"
  shows "(8 / 10 * of_int (consA ! i) :: rat) \<le> of_int (a (storA (i - 1))) \<and>
         (8 / 10 * of_int (consB ! i) :: rat) \<le> of_int (a (storB (i - 1)))"
  using feasible_week [OF assms] by (simp add: week_ok_def)

theorem safety_stock_witness:
  "feasible mdl ref_plan \<and> 8 \<in> set week \<and>
   (8 / 10 * of_int (consA ! 8) :: rat) \<le> of_int (ref_plan (storA (8 - 1))) \<and>
   (8 / 10 * of_int (consB ! 8) :: rat) \<le> of_int (ref_plan (storB (8 - 1)))"
proof -
  have w: "8 \<in> set week" by (simp add: week_def)
  show ?thesis
    using safety_stock [OF ref_plan_feasible w] ref_plan_feasible w by simp
qed

text \<open>
  C9.  In every feasible assignment and every week \<open>i\<close> of 1..9 the production of A
  lies between 0 and 100 and the production of B between 0 and 80; the lower bounds
  come from the domain of the variables.
\<close>

theorem capacity_bounds:
  assumes "feasible mdl a" and "i \<in> set week"
  shows "0 \<le> a (prodA i) \<and> a (prodA i) \<le> 100 \<and> 0 \<le> a (prodB i) \<and> a (prodB i) \<le> 80 \<and>
         (prodA i, NonNegativeIntegers) \<in> set (decls mdl) \<and>
         (prodB i, NonNegativeIntegers) \<in> set (decls mdl)"
proof -
  have "week_ok a (consA ! i) (consB ! i) i"
    using feasible_week [OF assms] .
  moreover have "0 \<le> a (prodA i)" "0 \<le> a (prodB i)"
    using feasible_domains [OF assms(1)] assms(2) by (simp_all add: domains_ok_def)
  moreover have "(prodA i, NonNegativeIntegers) \<in> set (decls mdl)"
    "(prodB i, NonNegativeIntegers) \<in> set (decls mdl)"
    using assms(2) by (auto simp add: mdl_eq init_decls_def)
  ultimately show ?thesis by (simp add: week_ok_def)
qed

theorem capacity_bounds_witness:
  "feasible mdl ref_plan \<and> 3 \<in> set week \<and>
   0 \<le> ref_plan (prodA 3) \<and> ref_plan (prodA 3) \<le> 100 \<and>
   0 \<le> ref_plan (prodB 3) \<and> ref_plan (prodB 3) \<le> 80"
proof -
  have w: "3 \<in> set week" by (simp add: week_def)
  show ?thesis
    using capacity_bounds [OF ref_plan_feasible w] ref_plan_feasible w by simp
qed

text \<open>
  C10.  In every feasible assignment the line state of week 0 is 0 and the stocks of
  week 0 are 125 for A and 143 for B.
\<close>

theorem initial_conditions:
  assumes "feasible mdl a"
  shows "a (deci 0) = 0 \<and> a (storA 0) = 125 \<and> a (storB 0) = 143"
  using assms by (simp add: feasible_mdl_iff)

theorem initial_conditions_witness:
  "feasible mdl ref_plan \<and>
   ref_plan (deci 0) = 0 \<and> ref_plan (storA 0) = 125 \<and> ref_plan (storB 0) = 143"
  using initial_conditions [OF ref_plan_feasible] ref_plan_feasible by simp

section \<open>The objective and the printed report\<close>

lemma eval_foldl_Add:
  "eval a (foldl Add e es) = eval a e + sum_list (map (eval a) es)"
  by (induction es arbitrary: e) (simp_all add: add.assoc)

lemma eval_py_sum: "eval a (py_sum es) = sum_list (map (eval a) es)"
  by (simp add: py_sum_def eval_foldl_Add)

lemma eval_cost_expr: "eval a cost_expr = spec_cost a"
proof -
  have A: "eval a (Add (Mul (V (prodA i)) (Num 225)) (Mul (V (prodB i)) (Num 310))) =
           of_int (a (prodA i)) * costA + of_int (a (prodB i)) * costB" for i
    by (simp add: costA_def costB_def)
  have B: "eval a (Add (Mul (Mul (V (storA i)) (Num (375 / 100000))) (Num 225))
                       (Mul (Div (Mul (V (storB i)) (Num (195 / 1000))) (Num 52)) (Num 310))) =
           of_int (a (storA i)) * holdRateA + of_int (a (storB i)) * holdRateB" for i
    by (simp add: holdRateA_def holdRateB_def)
  have C: "eval a (V (chan i)) = of_int (a (chan i))" for i
    by simp
  have "eval a cost_expr =
          eval a (py_sum (map (\<lambda>i. Add (Mul (V (prodA i)) (Num 225))
                                        (Mul (V (prodB i)) (Num 310))) week)) +
          eval a (py_sum (map (\<lambda>i. Add (Mul (Mul (V (storA i)) (Num (375 / 100000))) (Num 225))
                                        (Mul (Div (Mul (V (storB i)) (Num (195 / 1000))) (Num 52))
                                             (Num 310))) week)) +
          500 * eval a (py_sum (map (\<lambda>i. V (chan i)) week))"
    by (simp add: cost_expr_def)
  also have "\<dots> = spec_cost a"
    by (simp only: eval_py_sum map_map comp_def A B C spec_cost_def changeoverCost_def)
  finally show ?thesis .
qed

lemma totalCost_mdl: "totalCost mdl = Some cost_expr"
  by (simp add: mdl_eq)

lemma expr_value_total: "expr_value (\<lambda>v. Some (a v)) e = Some (eval a e)"
  by (induction e) simp_all

lemma cells_total: "cells (\<lambda>v. Some (a v)) x is = Inr (map (\<lambda>i. Number (a (x i))) is)"
  by (induction "is") simp_all

lemma expr_value_status: "expr_value (loaded (r\<lparr>status := s\<rparr>)) e = expr_value (loaded r) e"
  by simp

text \<open>The report printed when every variable holds a value.\<close>

lemma print_report_total:
  assumes "totalCost m = Some obj" and "loaded r = (\<lambda>v. Some (a v))"
  shows "print_report m r =
           Inr \<lparr>results_block = status r, Cost = eval a obj,
                week_row = map (\<lambda>i. Number (int i)) weekZ,
                prodA_row = Blank # map (\<lambda>i. Number (a (prodA i))) week,
                prodB_row = Blank # map (\<lambda>i. Number (a (prodB i))) week,
                storA_row = map (\<lambda>i. Number (a (storA i))) weekZ,
                storB_row = map (\<lambda>i. Number (a (storB i))) weekZ,
                deci_row = map (\<lambda>i. Number (a (deci i))) weekZ,
                chan_row = Blank # map (\<lambda>i. Number (a (chan i))) week\<rparr>"
  using assms by (simp add: print_report_def expr_value_total cells_total bind_err_def)

text \<open>Changing the status of the solver's result changes the result block and nothing else.\<close>

lemma bind_err_map_sum:
  assumes "\<And>y. map_sum id g (f y) = f' y"
  shows "map_sum id g (bind_err x f) = bind_err x f'"
  using assms by (cases x) (simp_all add: bind_err_def)

lemma print_report_status:
  "print_report m (r\<lparr>status := s\<rparr>) =
     map_sum id (\<lambda>rep. rep\<lparr>results_block := s\<rparr>) (print_report m r)"
proof (cases "totalCost m")
  case None
  then show ?thesis by (simp add: print_report_def)
next
  case (Some obj)
  show ?thesis
  proof (cases "expr_value (loaded r) obj")
    case None
    with Some show ?thesis by (simp add: print_report_def)
  next
    case c: (Some c)
    show ?thesis
      using Some c by (simp add: print_report_def bind_err_def split: sum.splits)
  qed
qed

lemma cell_at_week:
  assumes "i \<in> set week"
  shows "cell_at (Blank # map (\<lambda>i. Number (f i)) week) i = f i"
  using assms by (auto simp add: week_list cell_at_def)

lemma cell_at_weekZ:
  assumes "i \<in> set weekZ"
  shows "cell_at (map (\<lambda>i. Number (f i)) weekZ) i = f i"
  using assms by (simp add: cell_at_def weekZ_def)

lemma spec_cost_cong:
  assumes "\<And>i. i \<in> set week \<Longrightarrow> a (prodA i) = b (prodA i)"
    and "\<And>i. i \<in> set week \<Longrightarrow> a (prodB i) = b (prodB i)"
    and "\<And>i. i \<in> set week \<Longrightarrow> a (storA i) = b (storA i)"
    and "\<And>i. i \<in> set week \<Longrightarrow> a (storB i) = b (storB i)"
    and "\<And>i. i \<in> set week \<Longrightarrow> a (chan i) = b (chan i)"
  shows "spec_cost a = spec_cost b"
proof -
  have "map (\<lambda>i. of_int (a (prodA i)) * costA + of_int (a (prodB i)) * costB) week =
        map (\<lambda>i. of_int (b (prodA i)) * costA + of_int (b (prodB i)) * costB) week"
    using assms(1,2) by simp
  moreover have "map (\<lambda>i. of_int (a (storA i)) * holdRateA + of_int (a (storB i)) * holdRateB) week =
        map (\<lambda>i. of_int (b (storA i)) * holdRateA + of_int (b (storB i)) * holdRateB) week"
    using assms(3,4) by simp
  moreover have "map (\<lambda>i. of_int (a (chan i)) :: rat) week = map (\<lambda>i. of_int (b (chan i))) week"
    using assms(5) by simp
  ultimately show ?thesis by (simp only: spec_cost_def)
qed

lemma program_total:
  assumes "loaded (solver mdl) = (\<lambda>v. Some (a v))"
  shows "program consA consB solver =
           Inr \<lparr>results_block = status (solver mdl), Cost = eval a cost_expr,
                week_row = map (\<lambda>i. Number (int i)) weekZ,
                prodA_row = Blank # map (\<lambda>i. Number (a (prodA i))) week,
                prodB_row = Blank # map (\<lambda>i. Number (a (prodB i))) week,
                storA_row = map (\<lambda>i. Number (a (storA i))) weekZ,
                storB_row = map (\<lambda>i. Number (a (storB i))) weekZ,
                deci_row = map (\<lambda>i. Number (a (deci i))) weekZ,
                chan_row = Blank # map (\<lambda>i. Number (a (chan i))) week\<rparr>"
  by (simp add: program_def build_mdl bind_err_def print_report_total [OF totalCost_mdl assms])

lemma ref_plan_cost: "spec_cost ref_plan = 19900137 / 160"
  by (simp add: spec_cost_def week_list entry_def
      costA_def costB_def holdRateA_def holdRateB_def changeoverCost_def)

section \<open>The objective\<close>

text \<open>
  C6.  The objective of the built model is the expression of lines 75 to 79, and its
  value under any assignment is the closed form of the specification: production cost
  225 and 310 per unit, holding cost \<^verbatim>\<open>0.00375*225\<close> and \<^verbatim>\<open>0.195/52*310\<close> per unit of
  end-of-week stock, and 500 per changeover, summed over the weeks 1..9.  When the
  solver has loaded a value into every variable, the cost the script prints is this
  closed form evaluated on the plan its table shows.
\<close>

theorem objective_closed_form:
  "totalCost mdl = Some cost_expr \<and>
   eval a cost_expr = spec_cost a \<and>
   (\<exists>rep. program consA consB (\<lambda>m. \<lparr>status = s, loaded = (\<lambda>v. Some (a v))\<rparr>) = Inr rep \<and>
          Cost rep = spec_cost (plan_of rep))"
proof -
  let ?solver = "\<lambda>m::model. \<lparr>status = s, loaded = (\<lambda>v. Some (a v))\<rparr>"
  let ?rep = "\<lparr>results_block = status (?solver mdl), Cost = eval a cost_expr,
                week_row = map (\<lambda>i. Number (int i)) weekZ,
                prodA_row = Blank # map (\<lambda>i. Number (a (prodA i))) week,
                prodB_row = Blank # map (\<lambda>i. Number (a (prodB i))) week,
                storA_row = map (\<lambda>i. Number (a (storA i))) weekZ,
                storB_row = map (\<lambda>i. Number (a (storB i))) weekZ,
                deci_row = map (\<lambda>i. Number (a (deci i))) weekZ,
                chan_row = Blank # map (\<lambda>i. Number (a (chan i))) week\<rparr>"
  have run: "program consA consB ?solver = Inr ?rep"
    by (rule program_total) simp
  have "spec_cost (plan_of ?rep) = spec_cost a"
    by (rule spec_cost_cong) (simp_all add: cell_at_week cell_at_weekZ week_weekZ)
  then have "Cost ?rep = spec_cost (plan_of ?rep)"
    by (simp add: eval_cost_expr)
  with run show ?thesis
    using totalCost_mdl eval_cost_expr by blast
qed

section \<open>The solver status\<close>

text \<open>
  C2, as the claim states it, fails: with a solver that stops at its time limit with
  values loaded, the script prints the whole plan and ends with status 0.
\<close>

theorem status_check_counterexample:
  "status (stalled_solver mdl) \<noteq> Optimal \<and>
   program consA consB stalled_solver =
     Inr \<lparr>results_block = TimedOut, Cost = 19900137 / 160,
          week_row = [Number 0, Number 1, Number 2, Number 3, Number 4, Number 5, Number 6,
                      Number 7, Number 8, Number 9],
          prodA_row = [Blank, Number 25, Number 100, Number 100, Number 0, Number 0, Number 0,
                       Number 0, Number 0, Number 0],
          prodB_row = [Blank, Number 0, Number 0, Number 0, Number 2, Number 48, Number 56,
                       Number 57, Number 58, Number 11],
          storA_row = [Number 125, Number 95, Number 140, Number 196, Number 196, Number 151,
                       Number 106, Number 70, Number 35, Number 0],
          storB_row = [Number 143, Number 105, Number 67, Number 37, Number 39, Number 39,
                       Number 47, Number 46, Number 47, Number 0],
          deci_row = [Number 0, Number 0, Number 0, Number 0, Number 1, Number 1, Number 1,
                      Number 1, Number 1, Number 1],
          chan_row = [Blank, Number 0, Number 0, Number 0, Number 1, Number 0, Number 0,
                      Number 0, Number 0, Number 0]\<rparr> \<and>
   exit_status (program consA consB stalled_solver) = 0"
proof -
  have l: "loaded (stalled_solver mdl) = (\<lambda>v. Some (ref_plan v))"
    by (simp add: stalled_solver_def)
  show ?thesis
    unfolding program_total [of stalled_solver ref_plan, OF l]
    by (simp add: stalled_solver_def exit_status_def eval_cost_expr ref_plan_cost
        week_list weekZ_list entry_def)
qed

text \<open>
  C2, amended.  The script never reads the solver status: replacing the status of the
  solver's result changes the result block the script writes and nothing else; and
  whenever the solver has loaded a value into every variable, whatever its status, the
  script prints the cost and every row of the table and ends with status 0.
\<close>

theorem status_never_read:
  "program consA consB (\<lambda>m. (solver m)\<lparr>status := s\<rparr>) =
     map_sum id (\<lambda>rep. rep\<lparr>results_block := s\<rparr>) (program consA consB solver) \<and>
   program consA consB (\<lambda>m. \<lparr>status = s, loaded = (\<lambda>v. Some (a v))\<rparr>) =
     Inr \<lparr>results_block = s, Cost = spec_cost a,
          week_row = map (\<lambda>i. Number (int i)) weekZ,
          prodA_row = Blank # map (\<lambda>i. Number (a (prodA i))) week,
          prodB_row = Blank # map (\<lambda>i. Number (a (prodB i))) week,
          storA_row = map (\<lambda>i. Number (a (storA i))) weekZ,
          storB_row = map (\<lambda>i. Number (a (storB i))) weekZ,
          deci_row = map (\<lambda>i. Number (a (deci i))) weekZ,
          chan_row = Blank # map (\<lambda>i. Number (a (chan i))) week\<rparr> \<and>
   exit_status (program consA consB (\<lambda>m. \<lparr>status = s, loaded = (\<lambda>v. Some (a v))\<rparr>)) = 0"
proof -
  let ?solver = "\<lambda>m::model. \<lparr>status = s, loaded = (\<lambda>v. Some (a v))\<rparr>"
  have l: "loaded (?solver mdl) = (\<lambda>v. Some (a v))" by simp
  have 1: "program consA consB (\<lambda>m. (solver m)\<lparr>status := s\<rparr>) =
     map_sum id (\<lambda>rep. rep\<lparr>results_block := s\<rparr>) (program consA consB solver)"
    by (simp add: program_def build_mdl bind_err_def print_report_status)
  have 2: "program consA consB ?solver =
     Inr \<lparr>results_block = s, Cost = spec_cost a,
          week_row = map (\<lambda>i. Number (int i)) weekZ,
          prodA_row = Blank # map (\<lambda>i. Number (a (prodA i))) week,
          prodB_row = Blank # map (\<lambda>i. Number (a (prodB i))) week,
          storA_row = map (\<lambda>i. Number (a (storA i))) weekZ,
          storB_row = map (\<lambda>i. Number (a (storB i))) weekZ,
          deci_row = map (\<lambda>i. Number (a (deci i))) weekZ,
          chan_row = Blank # map (\<lambda>i. Number (a (chan i))) week\<rparr>"
    unfolding program_total [OF l] by (simp add: eval_cost_expr)
  have 3: "exit_status (program consA consB ?solver) = 0"
    unfolding 2 by (simp add: exit_status_def)
  from 1 2 3 show ?thesis by blast
qed

section \<open>Input validation\<close>









section \<open>Changeovers at the optimum\<close>

lemma distinct_week: "distinct week"
  by (simp add: week_def)

lemma sum_list_week_update:
  fixes f g :: "nat \<Rightarrow> rat"
  assumes "i \<in> set week" and "\<And>j. j \<noteq> i \<Longrightarrow> g j = f j"
  shows "sum_list (map g week) = sum_list (map f week) + (g i - f i)"
proof -
  have "sum_list (map g week) = sum g (set week)"
    by (rule sum_list_distinct_conv_sum_set [OF distinct_week])
  also have "\<dots> = g i + sum g (set week - {i})"
    by (rule sum.remove) (simp_all add: assms(1))
  also have "sum g (set week - {i}) = sum f (set week - {i})"
    by (rule sum.cong) (simp_all add: assms(2))
  finally have g: "sum_list (map g week) = g i + sum f (set week - {i})" .
  have "sum_list (map f week) = sum f (set week)"
    by (rule sum_list_distinct_conv_sum_set [OF distinct_week])
  also have "\<dots> = f i + sum f (set week - {i})"
    by (rule sum.remove) (simp_all add: assms(1))
  finally show ?thesis using g by simp
qed

lemma spec_cost_chan_update:
  assumes "i \<in> set week"
  shows "spec_cost (a(chan i := c)) = spec_cost a + 500 * (of_int c - of_int (a (chan i)))"
proof -
  have "(\<Sum>j\<leftarrow>week. of_int ((a(chan i := c)) (chan j)) :: rat) =
        (\<Sum>j\<leftarrow>week. of_int (a (chan j))) + (of_int c - of_int (a (chan i)))"
    by (rule sum_list_week_update [OF assms, THEN trans]) simp_all
  then show ?thesis
    by (simp add: spec_cost_def changeoverCost_def algebra_simps)
qed

lemma feasible_chan_reset:
  assumes "feasible mdl a" and "i \<in> set week" and "a (deci i) = a (deci (i - 1))"
  shows "feasible mdl (a(chan i := 0))"
proof -
  have d: "domains_ok (a(chan i := 0))"
    using feasible_domains [OF assms(1)] by (simp add: domains_ok_def)
  have w: "week_ok (a(chan i := 0)) (consA ! j) (consB ! j) j" if "j \<in> set week" for j
    using feasible_week [OF assms(1) that] assms(3) by (simp add: week_ok_def)
  from d w show ?thesis
    using assms(1) by (simp add: feasible_mdl_iff)
qed

section \<open>The plan is optimal\<close>

text \<open>
  Every feasible assignment has one of the 512 line-state patterns of weeks 1..9; its
  cost is at least the bound of its pattern, and each bound is evaluated.
\<close>

lemma floorsA_eq [code]:
  "floorsA = [(28, 35), (28, 35), (29, 36), (36, 45), (36, 45), (0, 0), (36, 44), (70, 55), (125, 55)]"
  unfolding floorsA_def by code_simp

lemma floorsB_eq [code]:
  "floorsB = [(47, 58), (46, 57), (47, 58), (39, 48), (39, 48), (37, 0), (67, 30), (105, 38), (143, 38)]"
  unfolding floorsB_def by code_simp

lemma all_patterns_ok: "list_all pattern_ok (List.n_lists 9 [0, 1])"
  by code_simp

lemma lb_le_act:
  assumes "m \<le> s" and "acc \<le> acc'" and "traj_ok s rs ss"
  shows "fst (lb m acc rs) \<le> fst (act s acc' ss) \<and> snd (lb m acc rs) \<le> snd (act s acc' ss)"
  using assms
proof (induction m acc rs arbitrary: s acc' ss rule: lb.induct)
  case (1 m acc)
  then show ?case by (cases ss) simp_all
next
  case (2 m acc L c cap rs)
  from "2.prems"(3) obtain s' ss' where ss: "ss = s' # ss'"
    by (cases ss) simp_all
  with "2.prems" have step: "L \<le> s'" "s + c - cap \<le> s'" "traj_ok s' rs ss'" by simp_all
  have "max L (m + c - cap) \<le> s'" using step(1,2) "2.prems"(1) by simp
  moreover have "acc + m \<le> acc' + s" using "2.prems"(1,2) by simp
  ultimately show ?case
    using "2.IH" [OF _ _ step(3)] by (simp add: ss)
qed

lemma cum_Suc: "cum cons (Suc i) = cum cons i + cons ! Suc i"
  by (simp add: cum_def)

lemma cum_0: "cum cons 0 = 0"
  by (simp add: cum_def)

lemma Suc_in_week: "n < 9 \<Longrightarrow> Suc n \<in> set week"
  by (simp add: week_def)

lemma safety_floor:
  assumes "(8 / 10 * of_int c :: rat) \<le> of_int s"
  shows "(4 * c + 4) div 5 \<le> s"
proof -
  have "(of_int (4 * c) :: rat) \<le> of_int (5 * s)"
    using assms by simp
  then have "4 * c \<le> 5 * s" by (simp only: of_int_le_iff)
  then show ?thesis by arith
qed

lemma stock_fwd_A:
  assumes "feasible mdl b" and "n \<le> 9"
  shows "125 - cum consA n \<le> b (storA n)"
  using assms(2)
proof (induction n)
  case 0
  then show ?case using assms(1) by (simp add: feasible_mdl_iff cum_0)
next
  case (Suc n)
  then have w: "Suc n \<in> set week" by (simp add: week_def)
  have "0 \<le> b (prodA (Suc n))"
    using feasible_domains [OF assms(1)] w by (simp add: domains_ok_def)
  moreover have "b (storA (Suc n)) = b (storA n) + b (prodA (Suc n)) - consA ! Suc n"
    using feasible_week [OF assms(1) w] by (simp add: week_ok_def)
  ultimately show ?case using Suc by (simp add: cum_Suc)
qed

lemma stock_fwd_B:
  assumes "feasible mdl b" and "n \<le> 9"
  shows "143 - cum consB n \<le> b (storB n)"
  using assms(2)
proof (induction n)
  case 0
  then show ?case using assms(1) by (simp add: feasible_mdl_iff cum_0)
next
  case (Suc n)
  then have w: "Suc n \<in> set week" by (simp add: week_def)
  have "0 \<le> b (prodB (Suc n))"
    using feasible_domains [OF assms(1)] w by (simp add: domains_ok_def)
  moreover have "b (storB (Suc n)) = b (storB n) + b (prodB (Suc n)) - consB ! Suc n"
    using feasible_week [OF assms(1) w] by (simp add: week_ok_def)
  ultimately show ?case using Suc by (simp add: cum_Suc)
qed

lemma week_step_A:
  assumes "feasible mdl b" and "n < 9"
  shows "fst (floor_row consA 125 (Suc n)) \<le> b (storA n)"
    and "b (storA (Suc n)) + snd (floor_row consA 125 (Suc n)) - capA (b (deci (Suc n))) \<le> b (storA n)"
proof -
  have w: "Suc n \<in> set week" using assms(2) by (rule Suc_in_week)
  have ok: "week_ok b (consA ! Suc n) (consB ! Suc n) (Suc n)"
    using feasible_week [OF assms(1) w] .
  have "(4 * (consA ! Suc n) + 4) div 5 \<le> b (storA n)"
    using ok by (intro safety_floor) (simp add: week_ok_def)
  moreover have "125 - cum consA n \<le> b (storA n)"
    using assms by (intro stock_fwd_A) simp_all
  ultimately show "fst (floor_row consA 125 (Suc n)) \<le> b (storA n)"
    by (simp add: floor_row_def)
  have d: "b (deci (Suc n)) = 0 \<or> b (deci (Suc n)) = 1"
    using feasible_domains [OF assms(1)] week_weekZ [OF w] by (simp add: domains_ok_def)
  have p: "b (prodA (Suc n)) \<le> 100" "b (prodA (Suc n)) \<le> 1000 * (1 - b (deci (Suc n)))"
    and bal: "b (storA (Suc n)) = b (storA n) + b (prodA (Suc n)) - consA ! Suc n"
    using ok by (simp_all add: week_ok_def)
  from d p have "b (prodA (Suc n)) \<le> capA (b (deci (Suc n)))"
    by (auto simp add: capA_def)
  with bal show "b (storA (Suc n)) + snd (floor_row consA 125 (Suc n)) - capA (b (deci (Suc n))) \<le> b (storA n)"
    by (simp add: floor_row_def)
qed

lemma week_step_B:
  assumes "feasible mdl b" and "n < 9"
  shows "fst (floor_row consB 143 (Suc n)) \<le> b (storB n)"
    and "b (storB (Suc n)) + snd (floor_row consB 143 (Suc n)) - capB (b (deci (Suc n))) \<le> b (storB n)"
proof -
  have w: "Suc n \<in> set week" using assms(2) by (rule Suc_in_week)
  have ok: "week_ok b (consA ! Suc n) (consB ! Suc n) (Suc n)"
    using feasible_week [OF assms(1) w] .
  have "(4 * (consB ! Suc n) + 4) div 5 \<le> b (storB n)"
    using ok by (intro safety_floor) (simp add: week_ok_def)
  moreover have "143 - cum consB n \<le> b (storB n)"
    using assms by (intro stock_fwd_B) simp_all
  ultimately show "fst (floor_row consB 143 (Suc n)) \<le> b (storB n)"
    by (simp add: floor_row_def)
  have d: "b (deci (Suc n)) = 0 \<or> b (deci (Suc n)) = 1"
    using feasible_domains [OF assms(1)] week_weekZ [OF w] by (simp add: domains_ok_def)
  have p: "b (prodB (Suc n)) \<le> 80" "b (prodB (Suc n)) \<le> 1000 * b (deci (Suc n))"
    and bal: "b (storB (Suc n)) = b (storB n) + b (prodB (Suc n)) - consB ! Suc n"
    using ok by (simp_all add: week_ok_def)
  from d p have "b (prodB (Suc n)) \<le> capB (b (deci (Suc n)))"
    by (auto simp add: capB_def)
  with bal show "b (storB (Suc n)) + snd (floor_row consB 143 (Suc n)) - capB (b (deci (Suc n))) \<le> b (storB n)"
    by (simp add: floor_row_def)
qed

lemma rev_upt_Suc: "rev [Suc 0..<Suc (Suc n)] = Suc n # rev [Suc 0..<Suc n]"
  by simp

lemma traj_ok_A:
  assumes "feasible mdl b" and "n \<le> 9"
  shows "traj_ok (b (storA n))
           (rows (map (floor_row consA 125) (rev [1..<Suc n])) capA
                 (map (\<lambda>i. b (deci i)) (rev [1..<Suc n])))
           (map (\<lambda>i. b (storA (i - 1))) (rev [1..<Suc n]))"
  using assms(2)
proof (induction n)
  case 0
  then show ?case by (simp add: rows_def)
next
  case (Suc n)
  then have n: "n < 9" by simp
  have "traj_ok (b (storA n))
           (rows (map (floor_row consA 125) (rev [1..<Suc n])) capA
                 (map (\<lambda>i. b (deci i)) (rev [1..<Suc n])))
           (map (\<lambda>i. b (storA (i - 1))) (rev [1..<Suc n]))"
    using Suc by simp
  then show ?case
    using week_step_A [OF assms(1) n]
    by (simp add: rows_def rev_upt_Suc split_beta del: upt_Suc)
qed

lemma traj_ok_B:
  assumes "feasible mdl b" and "n \<le> 9"
  shows "traj_ok (b (storB n))
           (rows (map (floor_row consB 143) (rev [1..<Suc n])) capB
                 (map (\<lambda>i. b (deci i)) (rev [1..<Suc n])))
           (map (\<lambda>i. b (storB (i - 1))) (rev [1..<Suc n]))"
  using assms(2)
proof (induction n)
  case 0
  then show ?case by (simp add: rows_def)
next
  case (Suc n)
  then have n: "n < 9" by simp
  have "traj_ok (b (storB n))
           (rows (map (floor_row consB 143) (rev [1..<Suc n])) capB
                 (map (\<lambda>i. b (deci i)) (rev [1..<Suc n])))
           (map (\<lambda>i. b (storB (i - 1))) (rev [1..<Suc n]))"
    using Suc by simp
  then show ?case
    using week_step_B [OF assms(1) n]
    by (simp add: rows_def rev_upt_Suc split_beta del: upt_Suc)
qed

lemma act_desc:
  "act (s n) acc (map (\<lambda>i. s (i - 1)) (rev [1..<Suc n])) =
     (s 0, acc + sum_list (map s [1..<Suc n]))"
  by (induction n arbitrary: acc) simp_all

lemma prod_sum_A:
  assumes "feasible mdl b" and "n \<le> 9"
  shows "sum_list (map (\<lambda>i. b (prodA i)) [1..<Suc n]) = b (storA n) - 125 + cum consA n"
  using assms(2)
proof (induction n)
  case 0
  then show ?case using assms(1) by (simp add: feasible_mdl_iff cum_0)
next
  case (Suc n)
  then have w: "Suc n \<in> set week" by (simp add: week_def)
  have "b (storA (Suc n)) = b (storA n) + b (prodA (Suc n)) - consA ! Suc n"
    using feasible_week [OF assms(1) w] by (simp add: week_ok_def)
  then show ?case using Suc by (simp add: cum_Suc)
qed

lemma prod_sum_B:
  assumes "feasible mdl b" and "n \<le> 9"
  shows "sum_list (map (\<lambda>i. b (prodB i)) [1..<Suc n]) = b (storB n) - 143 + cum consB n"
  using assms(2)
proof (induction n)
  case 0
  then show ?case using assms(1) by (simp add: feasible_mdl_iff cum_0)
next
  case (Suc n)
  then have w: "Suc n \<in> set week" by (simp add: week_def)
  have "b (storB (Suc n)) = b (storB n) + b (prodB (Suc n)) - consB ! Suc n"
    using feasible_week [OF assms(1) w] by (simp add: week_ok_def)
  then show ?case using Suc by (simp add: cum_Suc)
qed

lemma sw_le_chan:
  assumes "feasible mdl b" and "n \<le> 9"
  shows "sw (map (\<lambda>i. b (deci i)) (rev [0..<Suc n])) \<le> sum_list (map (\<lambda>i. b (chan i)) [1..<Suc n])"
  using assms(2)
proof (induction n)
  case 0
  then show ?case by simp
next
  case (Suc n)
  then have w: "Suc n \<in> set week" by (simp add: week_def)
  have "b (deci (Suc n)) - b (deci n) \<le> b (chan (Suc n))"
    "b (deci n) - b (deci (Suc n)) \<le> b (chan (Suc n))"
    using feasible_week [OF assms(1) w] by (simp_all add: week_ok_def)
  then have "\<bar>b (deci (Suc n)) - b (deci n)\<bar> \<le> b (chan (Suc n))" by simp
  moreover have "sw (map (\<lambda>i. b (deci i)) (rev [0..<Suc n])) \<le> sum_list (map (\<lambda>i. b (chan i)) [1..<Suc n])"
    using Suc by simp
  ultimately show ?case by simp
qed

lemma week_upt: "week = [1..<Suc 9]"
  by (simp add: week_def)

lemma pattern_of_feasible:
  assumes "feasible mdl b"
  shows "map (\<lambda>i. b (deci i)) (rev week) \<in> set (List.n_lists 9 [0, 1])"
proof -
  have "b (deci i) = 0 \<or> b (deci i) = 1" if "i \<in> set week" for i
    using feasible_domains [OF assms] week_weekZ [OF that] by (simp add: domains_ok_def)
  then have "set (map (\<lambda>i. b (deci i)) (rev week)) \<subseteq> set [0, 1]" by auto
  moreover have "length (map (\<lambda>i. b (deci i)) (rev week)) = 9" by (simp add: week_def)
  ultimately show ?thesis by (simp only: set_n_lists mem_Collect_eq)
qed

lemma cum_consA_9: "cum consA 9 = 350"
  by code_simp

lemma cum_consB_9: "cum consB 9 = 375"
  by code_simp

lemma icost_lower:
  assumes "feasible mdl b"
  shows "19900137 \<le> icost b"
proof -
  let ?ds = "map (\<lambda>i. b (deci i)) (rev week)"
  obtain mA SA where A: "lb 0 0 (rows floorsA capA ?ds) = (mA, SA)" by (cases "lb 0 0 (rows floorsA capA ?ds)")
  obtain mB SB where B: "lb 0 0 (rows floorsB capB ?ds) = (mB, SB)" by (cases "lb 0 0 (rows floorsB capB ?ds)")
  have dom: "domains_ok b" using assms by (rule feasible_domains)
  have nine: "9 \<in> set weekZ" by (simp add: weekZ_def)
  have s9: "0 \<le> b (storA 9)" "0 \<le> b (storB 9)"
    using dom nine by (simp_all add: domains_ok_def)
  have init: "b (deci 0) = 0" "b (storA 0) = 125" "b (storB 0) = 143"
    using assms by (simp_all add: feasible_mdl_iff)
  have tA: "traj_ok (b (storA 9)) (rows floorsA capA ?ds) (map (\<lambda>i. b (storA (i - 1))) (rev week))"
    unfolding floorsA_def week_upt by (rule traj_ok_A [OF assms]) simp
  have tB: "traj_ok (b (storB 9)) (rows floorsB capB ?ds) (map (\<lambda>i. b (storB (i - 1))) (rev week))"
    unfolding floorsB_def week_upt by (rule traj_ok_B [OF assms]) simp
  have actA: "act (b (storA 9)) 0 (map (\<lambda>i. b (storA (i - 1))) (rev week)) =
                (b (storA 0), sum_list (map (\<lambda>i. b (storA i)) week))"
    unfolding week_upt using act_desc [of "\<lambda>i. b (storA i)" 9 0] by simp
  have actB: "act (b (storB 9)) 0 (map (\<lambda>i. b (storB (i - 1))) (rev week)) =
                (b (storB 0), sum_list (map (\<lambda>i. b (storB i)) week))"
    unfolding week_upt using act_desc [of "\<lambda>i. b (storB i)" 9 0] by simp
  have z: "(0::int) \<le> 0" by simp
  have boundA: "mA \<le> 125" "SA \<le> sum_list (map (\<lambda>i. b (storA i)) week)"
    using lb_le_act [OF s9(1) z tA] unfolding A actA by (simp_all add: init)
  have boundB: "mB \<le> 143" "SB \<le> sum_list (map (\<lambda>i. b (storB i)) week)"
    using lb_le_act [OF s9(2) z tB] unfolding B actB by (simp_all add: init)
  have "pattern_ok ?ds"
    using all_patterns_ok pattern_of_feasible [OF assms] by (simp only: list_all_iff)
  then have v: "19900137 \<le> 36000 * 225 + 49600 * 232 + 135 * SA + 186 * SB + 80000 * sw (?ds @ [0])"
    using boundA(1) boundB(1) by (simp add: pattern_ok_def pattern_bound_def A B)
  have "?ds @ [0] = map (\<lambda>i. b (deci i)) (rev [0..<Suc 9])"
    by (simp add: week_def init(1) upt_rec [of 0])
  then have switches: "sw (?ds @ [0]) \<le> sum_list (map (\<lambda>i. b (chan i)) week)"
    unfolding week_upt using sw_le_chan [OF assms, of 9] by simp
  have pA: "225 \<le> sum_list (map (\<lambda>i. b (prodA i)) week)"
    unfolding week_upt using prod_sum_A [OF assms, of 9] s9(1) by (simp add: cum_consA_9)
  have pB: "232 \<le> sum_list (map (\<lambda>i. b (prodB i)) week)"
    unfolding week_upt using prod_sum_B [OF assms, of 9] s9(2) by (simp add: cum_consB_9)
  from v switches pA pB boundA(2) boundB(2) show ?thesis
    unfolding icost_def by linarith
qed

lemma sum_list_of_int: "(of_int (sum_list (map f xs)) :: rat) = sum_list (map (\<lambda>i. of_int (f i)) xs)"
  by (induction xs) simp_all

lemma sum_list_linear2:
  fixes c d :: rat
  shows "sum_list (map (\<lambda>i. f i * c + g i * d) xs) = c * sum_list (map f xs) + d * sum_list (map g xs)"
  by (induction xs) (simp_all add: algebra_simps)

lemma spec_cost_icost: "spec_cost a = of_int (icost a) / 160"
proof -
  have "spec_cost a =
          costA * (\<Sum>i\<leftarrow>week. of_int (a (prodA i))) + costB * (\<Sum>i\<leftarrow>week. of_int (a (prodB i))) +
          (holdRateA * (\<Sum>i\<leftarrow>week. of_int (a (storA i))) +
           holdRateB * (\<Sum>i\<leftarrow>week. of_int (a (storB i)))) +
          changeoverCost * (\<Sum>i\<leftarrow>week. of_int (a (chan i)))"
    by (simp only: spec_cost_def sum_list_linear2)
  also have "\<dots> = of_int (icost a) / 160"
    by (simp add: icost_def sum_list_of_int
        costA_def costB_def holdRateA_def holdRateB_def changeoverCost_def)
  finally show ?thesis .
qed

lemma ref_plan_optimal: "optimal mdl ref_plan"
proof -
  have "spec_cost ref_plan \<le> spec_cost b" if "feasible mdl b" for b
  proof -
    have "(of_int 19900137 :: rat) \<le> of_int (icost b)"
      using icost_lower [OF that] by (simp only: of_int_le_iff)
    then show ?thesis by (simp add: ref_plan_cost spec_cost_icost [of b])
  qed
  then show ?thesis
    by (simp add: optimal_def ref_plan_feasible totalCost_mdl eval_cost_expr)
qed

text \<open>
  C1.  In every optimal assignment of the built model and every week \<open>i\<close> of 1..9, the
  changeover variable of week \<open>i\<close> is 1 exactly when the line state of week \<open>i\<close> differs
  from that of week \<open>i - 1\<close>, and 0 otherwise: the two constraints of lines 71 and 72
  bound it from below, and the changeover cost of 500 in the minimised objective
  leaves no slack above the bound.
\<close>

theorem changeover_exact:
  assumes "optimal mdl a" and "i \<in> set week"
  shows "(a (chan i) = 1 \<longleftrightarrow> a (deci i) \<noteq> a (deci (i - 1))) \<and>
         (a (chan i) = 0 \<longleftrightarrow> a (deci i) = a (deci (i - 1)))"
proof -
  from assms(1) have feas: "feasible mdl a"
    and least: "\<And>b. feasible mdl b \<Longrightarrow> spec_cost a \<le> spec_cost b"
    by (simp_all add: optimal_def totalCost_mdl eval_cost_expr)
  have w: "week_ok a (consA ! i) (consB ! i) i"
    using feasible_week [OF feas assms(2)] .
  have dom: "domains_ok a" using feas by (rule feasible_domains)
  have c: "a (chan i) = 0 \<or> a (chan i) = 1"
    using dom assms(2) by (simp add: domains_ok_def)
  have di: "a (deci i) = 0 \<or> a (deci i) = 1"
    using dom week_weekZ [OF assms(2)] by (simp add: domains_ok_def)
  have dp: "a (deci (i - 1)) = 0 \<or> a (deci (i - 1)) = 1"
    using dom pred_week [OF assms(2)] by (simp add: domains_ok_def)
  have lower: "a (deci i) - a (deci (i - 1)) \<le> a (chan i)"
    "a (deci (i - 1)) - a (deci i) \<le> a (chan i)"
    using w by (simp_all add: week_ok_def)
  show ?thesis
  proof (cases "a (deci i) = a (deci (i - 1))")
    case True
    have "a (chan i) = 0"
    proof (rule ccontr)
      assume "a (chan i) \<noteq> 0"
      with c have one: "a (chan i) = 1" by simp
      have "feasible mdl (a(chan i := 0))"
        using feas assms(2) True by (rule feasible_chan_reset)
      then have "spec_cost a \<le> spec_cost (a(chan i := 0))" by (rule least)
      then show False
        by (simp add: spec_cost_chan_update [OF assms(2)] one)
    qed
    with True show ?thesis by simp
  next
    case False
    with di dp lower have "1 \<le> a (chan i)" by auto
    with c have "a (chan i) = 1" by simp
    with False show ?thesis by simp
  qed
qed

theorem changeover_exact_witness:
  "optimal mdl ref_plan \<and>
   4 \<in> set week \<and> ref_plan (chan 4) = 1 \<and> ref_plan (deci 4) \<noteq> ref_plan (deci (4 - 1)) \<and>
   5 \<in> set week \<and> ref_plan (chan 5) = 0 \<and> ref_plan (deci 5) = ref_plan (deci (5 - 1))"
proof -
  have w: "4 \<in> set week" "5 \<in> set week" by (simp_all add: week_def)
  have d: "ref_plan (deci 4) \<noteq> ref_plan (deci (4 - 1))" "ref_plan (deci 5) = ref_plan (deci (5 - 1))"
    by (simp_all add: entry_def)
  show ?thesis
    using changeover_exact [OF ref_plan_optimal w(1)] changeover_exact [OF ref_plan_optimal w(2)]
      ref_plan_optimal w d
    by simp
qed


end
